theory Spec2Isabelle
  imports Main
begin

section \<open>The .NET domain of sphinxcontrib-dotnetdomain\<close>

text \<open>
  A shallow embedding of \<^verbatim>\<open>src/sphinxcontrib/dotnetdomain.py\<close>. Strings are
  \<^typ>\<open>string\<close>, a character being a code point below 256; the source is Python 2 (\<^verbatim>\<open>iteritems\<close>, \<^verbatim>\<open>sphinx.locale.l_\<close>) and its
  patterns are compiled without \<^verbatim>\<open>re.UNICODE\<close>, so the classes \<^verbatim>\<open>\w\<close> and \<^verbatim>\<open>\s\<close> are
  the ASCII ones. Exceptions are values of \<open>py_error\<close>; a function that can raise
  returns \<open>py_error + 'a\<close>.
\<close>

datatype py_error = TypeError | ValueError | AttributeError

subsection \<open>Character classes\<close>

definition is_word :: "char \<Rightarrow> bool" where
  \<comment> \<open>\<^verbatim>\<open>\w\<close>: letters, digits and the underscore\<close>
  "is_word c \<longleftrightarrow>
     c \<in> set ''abcdefghijklmnopqrstuvwxyzABCDEFGHIJKLMNOPQRSTUVWXYZ0123456789_''"

definition is_space :: "char \<Rightarrow> bool" where
  \<comment> \<open>\<^verbatim>\<open>\s\<close>: space, \<^verbatim>\<open>\t \n \v \f \r\<close>\<close>
  "is_space c \<longleftrightarrow>
     c \<in> {CHR '' '', CHR 0x09, CHR 0x0A, CHR 0x0B, CHR 0x0C, CHR 0x0D}"

definition prefix_char :: "char \<Rightarrow> bool" where
  \<comment> \<open>\<^verbatim>\<open>[\w\_\-\.]\<close>\<close>
  "prefix_char c \<longleftrightarrow> is_word c \<or> c = CHR ''_'' \<or> c = CHR ''-'' \<or> c = CHR ''.''"

definition member_char :: "char \<Rightarrow> bool" where
  \<comment> \<open>\<^verbatim>\<open>[\w\_\-]\<close>\<close>
  "member_char c \<longleftrightarrow> is_word c \<or> c = CHR ''_'' \<or> c = CHR ''-''"

definition not_rparen :: "char \<Rightarrow> bool" where
  \<comment> \<open>\<^verbatim>\<open>[^)]\<close>: a negated class, it also matches a newline\<close>
  "not_rparen c \<longleftrightarrow> c \<noteq> CHR '')''"

subsection \<open>The fragment of Python's \<^verbatim>\<open>re\<close> that the source uses\<close>

text \<open>
  A backtracking matcher. A match state is the position in the subject, the rest of
  the subject from there, and the named groups captured so far. \<open>rmatch r st\<close>
  lists every way \<open>r\<close> can match at \<open>st\<close>, in the order in which Python's engine
  tries them: a greedy repetition offers the longest run first, an alternation its
  left branch first. The engine's answer is the head of the list.
\<close>

datatype regex =
    Bol                         \<comment> \<open>\<^verbatim>\<open>^\<close>\<close>
  | Eol                         \<comment> \<open>\<^verbatim>\<open>$\<close> (no \<^verbatim>\<open>re.MULTILINE\<close>)\<close>
  | Eps                         \<comment> \<open>the empty branch of \<^verbatim>\<open>(?:...|)\<close>\<close>
  | Lit char
  | Plus_class "char \<Rightarrow> bool"    \<comment> \<open>\<^verbatim>\<open>[...]+\<close>, greedy\<close>
  | Seq regex regex
  | Alt regex regex
  | Group string regex          \<comment> \<open>\<^verbatim>\<open>(?P<name>...)\<close>\<close>

type_synonym groups = "string \<rightharpoonup> string"
type_synonym mstate = "nat \<times> string \<times> groups"

fun greedy_plus :: "(char \<Rightarrow> bool) \<Rightarrow> nat \<Rightarrow> string \<Rightarrow> groups \<Rightarrow> mstate list" where
  "greedy_plus P i [] g = []"
| "greedy_plus P i (x # t) g =
     (if P x then greedy_plus P (Suc i) t g @ [(Suc i, t, g)] else [])"

fun rmatch :: "regex \<Rightarrow> mstate \<Rightarrow> mstate list" where
  "rmatch Bol (i, s, g) = (if i = 0 then [(i, s, g)] else [])"
| "rmatch Eol (i, s, g) = (if s = [] \<or> s = [CHR 0x0A] then [(i, s, g)] else [])"
| "rmatch Eps st = [st]"
| "rmatch (Lit c) (i, s, g) =
     (case s of [] \<Rightarrow> [] | x # t \<Rightarrow> if x = c then [(Suc i, t, g)] else [])"
| "rmatch (Plus_class P) (i, s, g) = greedy_plus P i s g"
| "rmatch (Seq a b) st = concat (map (rmatch b) (rmatch a st))"
| "rmatch (Alt a b) st = rmatch a st @ rmatch b st"
| "rmatch (Group n r) (i, s, g) =
     map (\<lambda>(j, t, h). (j, t, h(n \<mapsto> take (j - i) s))) (rmatch r (i, s, g))"

definition re_match :: "regex \<Rightarrow> string \<Rightarrow> groups option" where
  \<comment> \<open>\<^verbatim>\<open>pattern.match(s)\<close>: the first match at position 0, or None\<close>
  "re_match r s = (case rmatch r (0, s, Map.empty) of [] \<Rightarrow> None | (j, t, g) # _ \<Rightarrow> Some g)"

function re_split_from :: "regex \<Rightarrow> nat \<Rightarrow> string \<Rightarrow> string \<Rightarrow> string list" where
  "re_split_from r i piece s =
     (case (case rmatch r (i, s, Map.empty) of
              [] \<Rightarrow> None
            | (j, t, g) # _ \<Rightarrow> if length t < length s then Some (j, t) else None) of
        Some (j, t) \<Rightarrow> piece # re_split_from r j [] t
      | None \<Rightarrow> (case s of [] \<Rightarrow> [piece]
                 | c # t \<Rightarrow> re_split_from r (Suc i) (piece @ [c]) t))"
  by pat_completeness auto
termination
  by (relation "measure (\<lambda>(r, i, piece, s). length s)")
     (auto split: list.splits if_splits)

declare re_split_from.simps [simp del]

definition re_split :: "regex \<Rightarrow> string \<Rightarrow> string list" where
  \<comment> \<open>\<^verbatim>\<open>re.split(pattern, s)\<close> for a pattern without groups: the pieces between
      successive non-empty matches, scanning from the left\<close>
  "re_split r s = re_split_from r 0 [] s"

subsection \<open>DotNetSignature\<close>

record DotNetSignature =
  prefix :: "string option"
  member :: string
  arguments :: "string list option"

definition re_signature :: regex where
  "re_signature =
     Seq Bol
    (Seq (Alt (Seq (Group ''prefix'' (Plus_class prefix_char)) (Lit CHR ''.'')) Eps)
    (Seq (Group ''member'' (Plus_class member_char))
    (Seq (Alt (Seq (Lit CHR ''('')
              (Seq (Group ''arguments'' (Plus_class not_rparen)) (Lit CHR '')''))) Eps)
         Eol)))"

definition re_comma_spaces :: regex where
  \<comment> \<open>\<^verbatim>\<open>\,\s+\<close>\<close>
  "re_comma_spaces = Seq (Lit CHR '','') (Plus_class is_space)"

definition from_string :: "string \<Rightarrow> py_error + DotNetSignature" where
  \<comment> \<open>The group \<^verbatim>\<open>member\<close> takes part in every match. Without a match the source
      evaluates \<^verbatim>\<open>cls()\<close>, and \<^verbatim>\<open>__init__\<close> has three required parameters.\<close>
  "from_string signature =
     (case re_match re_signature signature of
        Some g \<Rightarrow>
          (case g ''member'' of
             Some m \<Rightarrow>
               Inr \<lparr>prefix = g ''prefix'',
                    member = m,
                    arguments =
                      (case g ''arguments'' of
                         None \<Rightarrow> None
                       | Some arg_string \<Rightarrow>
                           if arg_string \<noteq> [] then Some (re_split re_comma_spaces arg_string)
                           else None)\<rparr>
           | None \<Rightarrow> Inl TypeError)
      | None \<Rightarrow> Inl TypeError)"

definition full_name :: "DotNetSignature \<Rightarrow> string" where
  "full_name sig =
     (case prefix sig of Some p \<Rightarrow> p @ ''.'' @ member sig | None \<Rightarrow> member sig)"

subsection \<open>Small pieces of Python's \<^verbatim>\<open>str\<close>\<close>

definition is_strip_space :: "char \<Rightarrow> bool" where
  \<comment> \<open>what \<^verbatim>\<open>isspace()\<close> holds of in a text string: the characters of \<^verbatim>\<open>\s\<close>, the
      separators U+001C to U+001F, U+0085 and U+00A0\<close>
  "is_strip_space c \<longleftrightarrow>
     is_space c \<or> c \<in> {CHR 0x1C, CHR 0x1D, CHR 0x1E, CHR 0x1F, CHR 0x85, CHR 0xA0}"

definition strip :: "string \<Rightarrow> string" where
  \<comment> \<open>\<^verbatim>\<open>s.strip()\<close>\<close>
  "strip s = rev (dropWhile is_strip_space (rev (dropWhile is_strip_space s)))"

definition lstrip :: "char \<Rightarrow> string \<Rightarrow> string" where
  \<comment> \<open>\<^verbatim>\<open>s.lstrip(c)\<close> for a one-character argument\<close>
  "lstrip c s = dropWhile (\<lambda>x. x = c) s"

definition replace_sigil :: "string \<Rightarrow> string" where
  \<comment> \<open>\<^verbatim>\<open>s.replace('$', '_S_')\<close>\<close>
  "replace_sigil s = concat (map (\<lambda>c. if c = CHR ''$'' then ''_S_'' else [c]) s)"

fun join :: "string \<Rightarrow> string list \<Rightarrow> string" where
  \<comment> \<open>\<^verbatim>\<open>sep.join(xs)\<close>\<close>
  "join sep [] = []"
| "join sep [x] = x"
| "join sep (x # y # ys) = x @ sep @ join sep (y # ys)"

definition truthy :: "string option \<Rightarrow> bool" where
  \<comment> \<open>the truth value of a variable that holds None or a string\<close>
  "truthy v \<longleftrightarrow> (case v of None \<Rightarrow> False | Some s \<Rightarrow> s \<noteq> [])"

subsection \<open>The construct kinds\<close>

datatype kind =
  DotNetNamespace | DotNetClass | DotNetStructure | DotNetInterface
| DotNetDelegate | DotNetEnumeration | DotNetMethod | DotNetProperty

fun short_name :: "kind \<Rightarrow> string" where
  "short_name DotNetNamespace = ''ns''"
| "short_name DotNetClass = ''cls''"
| "short_name DotNetStructure = ''struct''"
| "short_name DotNetInterface = ''iface''"
| "short_name DotNetDelegate = ''del''"
| "short_name DotNetEnumeration = ''enum''"
| "short_name DotNetMethod = ''meth''"
| "short_name DotNetProperty = ''prop''"

fun long_name :: "kind \<Rightarrow> string" where
  "long_name DotNetNamespace = ''namespace''"
| "long_name DotNetClass = ''class''"
| "long_name DotNetStructure = ''structure''"
| "long_name DotNetInterface = ''interface''"
| "long_name DotNetDelegate = ''delegate''"
| "long_name DotNetEnumeration = ''enumeration''"
| "long_name DotNetMethod = ''method''"
| "long_name DotNetProperty = ''property''"

fun display_prefix :: "kind \<Rightarrow> string option" where
  "display_prefix DotNetNamespace = Some ''namespace ''"
| "display_prefix DotNetClass = Some ''class ''"
| "display_prefix DotNetStructure = Some ''structure ''"
| "display_prefix DotNetInterface = Some ''interface ''"
| "display_prefix DotNetDelegate = Some ''delegate ''"
| "display_prefix DotNetEnumeration = Some ''enumeration ''"
| "display_prefix DotNetMethod = None"
| "display_prefix DotNetProperty = None"

fun has_arguments :: "kind \<Rightarrow> bool" where
  \<comment> \<open>True in \<^verbatim>\<open>DotNetCallable\<close>, False in \<^verbatim>\<open>DotNetObject\<close>\<close>
  "has_arguments DotNetMethod = True"
| "has_arguments DotNetProperty = True"
| "has_arguments _ = False"

fun is_nested :: "kind \<Rightarrow> bool" where
  \<comment> \<open>the subclasses of \<^verbatim>\<open>DotNetObjectNested\<close>\<close>
  "is_nested DotNetMethod = False"
| "is_nested DotNetProperty = False"
| "is_nested _ = True"

definition directives :: "string \<rightharpoonup> kind" where
  \<comment> \<open>\<^verbatim>\<open>dict((cls.long_name, cls) for cls in _types)\<close>: a directive is registered under
      its long name, and the host hands that name to the directive as \<^verbatim>\<open>objtype\<close>\<close>
  "directives = map_of (map (\<lambda>k. (long_name k, k))
     [DotNetNamespace, DotNetClass, DotNetStructure, DotNetInterface,
      DotNetDelegate, DotNetEnumeration, DotNetMethod, DotNetProperty])"

subsection \<open>DotNetObject.handle_signature\<close>

datatype desc_node =
    desc_annotation string
  | desc_addname string
  | desc_name string
  | desc_parameterlist
  | pseudo_parse_arglist string
      \<comment> \<open>what the host's \<^verbatim>\<open>_pseudo_parse_arglist\<close> adds for this argument string\<close>

record signode =
  sn_object :: "string option"
  sn_package :: "string option"
  sn_fullname :: "string option"
  sn_children :: "desc_node list"
  sn_names :: "string list"
  sn_ids :: "string list"
  sn_first :: "bool option"

definition new_signode :: signode where
  "new_signode = \<lparr>sn_object = None, sn_package = None, sn_fullname = None,
                  sn_children = [], sn_names = [], sn_ids = [], sn_first = None\<rparr>"

definition handle_signature ::
  "kind \<Rightarrow> string option \<Rightarrow> string \<Rightarrow> signode
     \<Rightarrow> py_error + (signode \<times> (string \<times> string option))" where
  \<comment> \<open>\<open>dn_prefix\<close> is \<^verbatim>\<open>env.temp_data.get('dn:prefix', None)\<close>. The result is the
      signode as the method leaves it and the pair it returns.\<close>
  "handle_signature k dn_prefix sig0 node =
     (case from_string (strip sig0) of
        Inl e \<Rightarrow> Inl e
      | Inr parsed \<Rightarrow>
          let sig = (if truthy dn_prefix \<and> prefix parsed = dn_prefix
                     then parsed\<lparr>prefix := None\<rparr> else parsed);
              node1 = node\<lparr>sn_object := Some (member sig),
                           sn_package := prefix sig,
                           sn_fullname := Some (full_name sig)\<rparr>;
              ch1 = (case display_prefix k of
                       Some d \<Rightarrow> if d \<noteq> [] then [desc_annotation d] else []
                     | None \<Rightarrow> []);
              ch2 = (case prefix sig of
                       Some p \<Rightarrow> [desc_addname (p @ ''.'')]
                     | None \<Rightarrow> []);
              ch3 = [desc_name (member sig)];
              ch4 = (if has_arguments k then
                       (case arguments sig of
                          None \<Rightarrow> [desc_parameterlist]
                        | Some as \<Rightarrow>
                            if as = [] then [desc_parameterlist]
                            else [pseudo_parse_arglist (join '', '' as)])
                     else [])
          in Inr (node1\<lparr>sn_children := sn_children node1 @ ch1 @ ch2 @ ch3 @ ch4\<rparr>,
                  (full_name sig, prefix sig)))"

subsection \<open>DotNetObject.get_index_text and add_target_and_index\<close>

definition get_index_text ::
  "string \<Rightarrow> string option \<Rightarrow> string \<times> string option \<Rightarrow> string" where
  \<comment> \<open>\<open>objtype\<close> is \<^verbatim>\<open>self.objtype\<close>; \<open>objectname\<close> is not used by the source.
      \<^verbatim>\<open>'%s'\<close> renders None as the text None; the message catalogue \<^verbatim>\<open>_\<close> is
      taken to leave the format strings as they are.\<close>
  "get_index_text objtype objectname name_obj =
     (let name = fst name_obj; obj = snd name_obj;
          obj_text = (case obj of None \<Rightarrow> ''None'' | Some s \<Rightarrow> s)
      in if objtype = ''function'' then
           (if \<not> truthy obj then name @ ''() (built-in function)''
            else name @ ''() ('' @ obj_text @ '' method)'')
         else if objtype = ''package'' then name @ '' (package)''
         else if objtype = ''data'' then name @ '' (global variable or constant)''
         else if objtype = ''attribute'' then name @ '' ('' @ obj_text @ '' attribute)''
         else [])"

record build =
  docname :: string                                  \<comment> \<open>\<^verbatim>\<open>env.docname\<close>\<close>
  objects :: "string \<rightharpoonup> string \<times> string"            \<comment> \<open>\<^verbatim>\<open>domaindata['dn']['objects']\<close>\<close>
  document_ids :: "string set"                       \<comment> \<open>the keys of \<^verbatim>\<open>state.document.ids\<close>\<close>
  warnings :: "string list"                          \<comment> \<open>what went to \<^verbatim>\<open>reporter.warning\<close>\<close>
  index_entries :: "(string \<times> string \<times> string \<times> string) list"
                                                     \<comment> \<open>\<^verbatim>\<open>indexnode['entries']\<close>\<close>

definition duplicate_warning :: "(string \<Rightarrow> string) \<Rightarrow> string \<Rightarrow> string \<Rightarrow> string" where
  "duplicate_warning doc2path fullname other_doc =
     ''duplicate object description of '' @ fullname @ '', '' @
     ''other instance in '' @ doc2path other_doc"

definition add_target_and_index ::
  "(string \<Rightarrow> string) \<Rightarrow> string \<Rightarrow> (string \<times> string option) list \<Rightarrow> string option
     \<Rightarrow> string option \<Rightarrow> string \<times> string option \<Rightarrow> signode \<Rightarrow> build \<Rightarrow> signode \<times> build" where
  \<comment> \<open>\<open>doc2path\<close> is the host's \<^verbatim>\<open>env.doc2path\<close>, \<open>names\<close> is \<^verbatim>\<open>self.names\<close>,
      \<open>opt_object\<close> is \<^verbatim>\<open>self.options.get('object')\<close> and \<open>dn_object\<close> is
      \<^verbatim>\<open>env.temp_data.get('dn:object')\<close>. The host's \<^verbatim>\<open>note_explicit_target\<close> enters
      the node in \<^verbatim>\<open>document.ids\<close> under the id just appended; the messages it writes
      itself are not part of \<open>warnings\<close>.\<close>
  "add_target_and_index doc2path objtype names opt_object dn_object name_obj node b =
     (let objectname = (case opt_object of Some v \<Rightarrow> Some v | None \<Rightarrow> dn_object);
          fullname = fst name_obj;
          (node1, b1) =
            (if fullname \<notin> document_ids b then
               (node\<lparr>sn_names := sn_names node @ [fullname],
                     sn_ids := sn_ids node @ [replace_sigil fullname],
                     sn_first := Some (names = [])\<rparr>,
                (case objects b fullname of
                   Some other \<Rightarrow>
                     b\<lparr>warnings := warnings b @ [duplicate_warning doc2path fullname (fst other)]\<rparr>
                 | None \<Rightarrow> b)
                \<lparr>document_ids := insert (replace_sigil fullname) (document_ids b),
                 objects := (objects b)(fullname \<mapsto> (docname b, objtype))\<rparr>)
             else (node, b));
          indextext = get_index_text objtype objectname name_obj
      in if indextext \<noteq> [] then
           (node1, b1\<lparr>index_entries := index_entries b1 @
                        [(''single'', indextext, replace_sigil fullname, [])]\<rparr>)
         else (node1, b1))"

subsection \<open>DotNetObjectNested.before_content and after_content\<close>

record nesting =
  dn_prefix :: "string option"                    \<comment> \<open>\<^verbatim>\<open>env.temp_data['dn:prefix']\<close>\<close>
  self_names :: "(string \<times> string option) list"   \<comment> \<open>\<^verbatim>\<open>self.names\<close>\<close>
  clsname_set :: "bool option"                    \<comment> \<open>None: the attribute is not set\<close>

definition before_content :: "nesting \<Rightarrow> nesting" where
  \<comment> \<open>The two \<^verbatim>\<open>print\<close> calls write to standard output and change nothing here.\<close>
  "before_content st =
     (if self_names st \<noteq> [] then
        (let (parent, prefix) = last (self_names st)
         in st\<lparr>self_names := butlast (self_names st),
               dn_prefix := prefix,
               clsname_set := Some True\<rparr>)
      else st)"

definition after_content :: "nesting \<Rightarrow> py_error + nesting" where
  "after_content st =
     (case clsname_set st of
        None \<Rightarrow> Inl AttributeError
      | Some flag \<Rightarrow> if flag then Inr (st\<lparr>dn_prefix := None\<rparr>) else Inr st)"

subsection \<open>DotNetXRefRole.process_link\<close>

record refnode =
  rn_object :: "string option"       \<comment> \<open>\<^verbatim>\<open>refnode['dn:object']\<close>\<close>
  rn_namespace :: "string option"    \<comment> \<open>\<^verbatim>\<open>refnode['dn:namespace']\<close>\<close>
  refspecific :: bool                \<comment> \<open>whether the attribute \<^verbatim>\<open>refspecific\<close> is set\<close>

definition after_last_dot :: "string \<Rightarrow> string" where
  \<comment> \<open>\<^verbatim>\<open>dot = title.rfind('.')\<close>, then \<^verbatim>\<open>title[dot+1:]\<close> unless \<^verbatim>\<open>dot\<close> is -1\<close>
  "after_last_dot title =
     (if CHR ''.'' \<in> set title then rev (takeWhile (\<lambda>c. c \<noteq> CHR ''.'') (rev title))
      else title)"

definition process_link ::
  "string option \<Rightarrow> string option \<Rightarrow> refnode \<Rightarrow> bool \<Rightarrow> string \<Rightarrow> string
     \<Rightarrow> refnode \<times> string \<times> string" where
  \<comment> \<open>\<open>dn_object\<close> and \<open>dn_namespace\<close> are the two entries of \<^verbatim>\<open>env.temp_data\<close>.\<close>
  "process_link dn_object dn_namespace node has_explicit_title title0 target0 =
     (let node1 = node\<lparr>rn_object := dn_object, rn_namespace := dn_namespace\<rparr>;
          (title, target) =
            (if \<not> has_explicit_title then
               (let title1 = lstrip CHR ''.'' title0;
                    target1 = lstrip CHR ''~'' target0
                in (case title1 of
                      c # rest \<Rightarrow>
                        if c = CHR ''~'' then (after_last_dot rest, target1)
                        else (title1, target1)
                    | [] \<Rightarrow> (title1, target1)))
             else (title0, target0))
      in (case target of
            c # rest \<Rightarrow>
              if c = CHR ''.'' then (node1\<lparr>refspecific := True\<rparr>, title, rest)
              else (node1, title, target)
          | [] \<Rightarrow> (node1, title, target)))"

subsection \<open>DotNetDomain.find_obj and resolve_xref\<close>

datatype find_result =
    Empty_list                                            \<comment> \<open>\<^verbatim>\<open>return []\<close>\<close>
  | Name_obj "string option" "(string \<times> string) option"   \<comment> \<open>\<^verbatim>\<open>return newname, objects.get(newname)\<close>\<close>

definition skip_parens :: "string \<Rightarrow> string" where
  \<comment> \<open>\<^verbatim>\<open>if name[-2:] == '()': name = name[:-2]\<close>\<close>
  "skip_parens name =
     (if drop (length name - 2) name = ''()'' then take (length name - 2) name else name)"

definition find_obj ::
  "(string \<rightharpoonup> string \<times> string) \<Rightarrow> string option \<Rightarrow> string \<Rightarrow> string \<Rightarrow> int \<Rightarrow> find_result" where
  \<comment> \<open>\<open>objs\<close> is \<^verbatim>\<open>self.data['objects']\<close>; \<open>obj_type\<close> is not used by the source.\<close>
  "find_obj objs pkg name0 obj_type searchorder =
     (let name = skip_parens name0
      in if name = [] then Empty_list
         else
           (let fullname = (case pkg of Some p \<Rightarrow> Some (p @ ''.'' @ name) | None \<Rightarrow> None);
                pkg_hit = (truthy pkg \<and>
                           (case fullname of Some f \<Rightarrow> objs f \<noteq> None | None \<Rightarrow> False));
                newname =
                  (if searchorder = 1 then
                     (if pkg_hit then fullname else Some name)
                   else
                     (if objs name \<noteq> None then Some name
                      else if pkg_hit then fullname
                      else None))
            in Name_obj newname (case newname of Some n \<Rightarrow> objs n | None \<Rightarrow> None)))"

record reference =
  \<comment> \<open>the arguments the host's \<^verbatim>\<open>make_refnode\<close> receives\<close>
  ref_fromdocname :: string
  ref_todocname :: string
  ref_targetid :: string
  ref_title :: string

definition resolve_xref ::
  "(string \<rightharpoonup> string \<times> string) \<Rightarrow> string \<Rightarrow> string \<Rightarrow> string \<Rightarrow> refnode
     \<Rightarrow> py_error + reference option" where
  \<comment> \<open>Unpacking \<^verbatim>\<open>name, obj = ...\<close> needs a sequence of two values. \<open>Inr None\<close> is
      \<^verbatim>\<open>return None\<close>: the host leaves the reference as plain text.\<close>
  "resolve_xref objs fromdocname obj_type target node =
     (let namespace = rn_namespace node;
          searchorder = (if refspecific node then 1 else 0)
      in case find_obj objs namespace target obj_type searchorder of
           Empty_list \<Rightarrow> Inl ValueError
         | Name_obj name obj \<Rightarrow>
             (case obj of
                None \<Rightarrow> Inr None
              | Some entry \<Rightarrow>
                  (case name of
                     None \<Rightarrow> Inl AttributeError
                   | Some n \<Rightarrow>
                       Inr (Some \<lparr>ref_fromdocname = fromdocname,
                                  ref_todocname = fst entry,
                                  ref_targetid = replace_sigil n,
                                  ref_title = n\<rparr>))))"

subsection \<open>The specification's words for the resolver and the role\<close>

definition qualified_name :: "string option \<Rightarrow> string \<Rightarrow> string option" where
  \<comment> \<open>the specification's \<^verbatim>\<open>qualified = context_namespace + "." + target\<close>, defined
      when a namespace is given; an empty namespace counts as not given\<close>
  "qualified_name context_namespace target =
     (case context_namespace of
        Some ns \<Rightarrow> if ns \<noteq> [] then Some (ns @ ''.'' @ target) else None
      | None \<Rightarrow> None)"

definition strip_one_dot :: "string \<Rightarrow> string" where
  \<comment> \<open>the specification's step "if the target begins with a literal dot, strip it"\<close>
  "strip_one_dot target =
     (case target of c # rest \<Rightarrow> if c = CHR ''.'' then rest else target | [] \<Rightarrow> [])"

subsection \<open>Well-formed signatures\<close>

text \<open>
  The text of a signature with an optional prefix, a member and an optional
  argument string, and the conditions under which the grammar reads it back. They
  are used to state properties of \<open>from_string\<close> for whole families of inputs.
\<close>

definition args_text :: "string option \<Rightarrow> string" where
  \<comment> \<open>the parenthesised argument string, when there is one\<close>
  "args_text ao = (case ao of Some a \<Rightarrow> ''('' @ a @ '')'' | None \<Rightarrow> [])"

definition head_text :: "string option \<Rightarrow> string \<Rightarrow> string" where
  \<comment> \<open>the dotted name in front of the arguments\<close>
  "head_text po m = (case po of Some p \<Rightarrow> p @ ''.'' | None \<Rightarrow> []) @ m"

definition sig_text :: "string option \<Rightarrow> string \<Rightarrow> string option \<Rightarrow> string" where
  "sig_text po m ao =
     (case po of Some p \<Rightarrow> p @ ''.'' | None \<Rightarrow> []) @ m @
     (case ao of Some a \<Rightarrow> ''('' @ a @ '')'' | None \<Rightarrow> [])"

definition sig_wf :: "string option \<Rightarrow> string \<Rightarrow> string option \<Rightarrow> bool" where
  "sig_wf po m ao \<longleftrightarrow>
     (case po of Some p \<Rightarrow> p \<noteq> [] \<and> list_all prefix_char p | None \<Rightarrow> True) \<and>
     m \<noteq> [] \<and> list_all member_char m \<and>
     (case ao of Some a \<Rightarrow> a \<noteq> [] \<and> list_all not_rparen a | None \<Rightarrow> True)"

text \<open>
  An argument string has a delimiter where a comma is followed by whitespace. A
  well-formed argument fragment is not empty, does not begin with whitespace, and
  holds neither a closing parenthesis nor a delimiter.
\<close>

fun has_delim :: "string \<Rightarrow> bool" where
  "has_delim (c # d # t) = ((c = CHR '','' \<and> is_space d) \<or> has_delim (d # t))"
| "has_delim _ = False"

definition wf_argument :: "string \<Rightarrow> bool" where
  "wf_argument a \<longleftrightarrow>
     a \<noteq> [] \<and> \<not> is_space (hd a) \<and> list_all not_rparen a \<and> \<not> has_delim a"

section \<open>Properties\<close>

lemmas char_class_defs =
  is_word_def is_space_def is_strip_space_def prefix_char_def member_char_def
  not_rparen_def

lemmas parse_defs =
  from_string_def re_match_def re_signature_def re_split_def re_comma_spaces_def
  re_split_from.simps full_name_def strip_def

subsection \<open>What the matcher finds\<close>

text \<open>
  Every result of the greedy repetition consumed a non-empty run of the class, and
  every such run is among the results.
\<close>

lemma greedy_plus_sound:
  "(j, t, h) \<in> set (greedy_plus P i s g) \<Longrightarrow>
     h = g \<and> (\<exists>u. u \<noteq> [] \<and> s = u @ t \<and> list_all P u \<and> j = i + length u)"
proof (induction s arbitrary: i)
  case Nil
  then show ?case by simp
next
  case (Cons x s)
  show ?case
  proof (cases "P x")
    case False
    with Cons.prems show ?thesis by simp
  next
    case True
    with Cons.prems consider "(j, t, h) \<in> set (greedy_plus P (Suc i) s g)" | "j = Suc i" "t = s" "h = g"
      by auto
    then show ?thesis
    proof cases
      case 1
      from Cons.IH [OF 1] obtain u where "h = g" "u \<noteq> []" "s = u @ t" "list_all P u" "j = Suc i + length u"
        by blast
      with True show ?thesis by (intro conjI exI [of _ "x # u"]) simp_all
    next
      case 2
      with True show ?thesis by (intro conjI exI [of _ "[x]"]) simp_all
    qed
  qed
qed

lemma greedy_plus_complete:
  "u \<noteq> [] \<Longrightarrow> list_all P u \<Longrightarrow> (i + length u, t, g) \<in> set (greedy_plus P i (u @ t) g)"
proof (induction u arbitrary: i)
  case Nil
  then show ?case by simp
next
  case (Cons x u)
  show ?case
  proof (cases "u = []")
    case True
    with Cons.prems show ?thesis by simp
  next
    case False
    with Cons.prems have "(Suc i + length u, t, g) \<in> set (greedy_plus P (Suc i) (u @ t) g)"
      by (intro Cons.IH) simp_all
    with Cons.prems show ?thesis by simp
  qed
qed

lemma sig_sound:
  assumes "(j, t, g) \<in> set (rmatch re_signature (0, s, Map.empty))"
  shows "\<exists>po m ao. s = sig_text po m ao @ t \<and> sig_wf po m ao \<and> (t = [] \<or> t = [CHR 0x0A]) \<and>
           g ''prefix'' = po \<and> g ''member'' = Some m \<and> g ''arguments'' = ao"
  using assms
  by (simp add: re_signature_def)
     (auto simp: sig_text_def sig_wf_def dest!: greedy_plus_sound split: list.splits if_splits)

lemma rmatch_SeqI:
  "st1 \<in> set (rmatch a st) \<Longrightarrow> st2 \<in> set (rmatch b st1) \<Longrightarrow> st2 \<in> set (rmatch (Seq a b) st)"
  by auto

lemma rmatch_AltI1: "st1 \<in> set (rmatch a st) \<Longrightarrow> st1 \<in> set (rmatch (Alt a b) st)"
  by simp

lemma rmatch_AltI2: "st1 \<in> set (rmatch b st) \<Longrightarrow> st1 \<in> set (rmatch (Alt a b) st)"
  by simp

lemma rmatch_GroupI:
  "(j, t, h) \<in> set (rmatch r (i, s, g)) \<Longrightarrow> h' = h(n \<mapsto> take (j - i) s) \<Longrightarrow>
     (j, t, h') \<in> set (rmatch (Group n r) (i, s, g))"
  by force

lemma rmatch_PlusI:
  "u \<noteq> [] \<Longrightarrow> list_all P u \<Longrightarrow> (i + length u, t, g) \<in> set (rmatch (Plus_class P) (i, u @ t, g))"
  by (simp add: greedy_plus_complete)

lemma rmatch_LitI: "(Suc i, t, g) \<in> set (rmatch (Lit c) (i, c # t, g))"
  by simp

text \<open>
  The signature pattern matches every well-formed signature text, whatever it
  matches is a well-formed signature text followed by at most a newline, and a text
  has one reading only. So the first match is the reading of the text.
\<close>

lemma sig_complete:
  assumes "sig_wf po m ao"
  shows "rmatch re_signature (0, sig_text po m ao, Map.empty) \<noteq> []"
proof -
  let ?A = "args_text ao"
  obtain k g1 where 1:
    "(k, m @ ?A, g1) \<in> set (rmatch (Alt (Seq (Group ''prefix'' (Plus_class prefix_char))
                                            (Lit CHR ''.'')) Eps)
                                 (0, sig_text po m ao, Map.empty))"
  proof (cases po)
    case None
    then have "(0, m @ ?A, Map.empty) \<in> set (rmatch (Alt (Seq (Group ''prefix'' (Plus_class prefix_char))
                                            (Lit CHR ''.'')) Eps)
                                 (0, sig_text po m ao, Map.empty))"
      by (simp add: sig_text_def args_text_def)
    then show ?thesis by (rule that)
  next
    case (Some p)
    with assms have p: "p \<noteq> []" "list_all prefix_char p" by (simp_all add: sig_wf_def)
    have t: "sig_text po m ao = p @ (CHR ''.'' # m @ ?A)"
      using Some by (simp add: sig_text_def args_text_def)
    have "(0 + length p, CHR ''.'' # m @ ?A, Map.empty)
            \<in> set (rmatch (Plus_class prefix_char) (0, sig_text po m ao, Map.empty))"
      unfolding t using p by (rule rmatch_PlusI)
    then have "(0 + length p, CHR ''.'' # m @ ?A, [''prefix'' \<mapsto> p])
            \<in> set (rmatch (Group ''prefix'' (Plus_class prefix_char)) (0, sig_text po m ao, Map.empty))"
      by (rule rmatch_GroupI) (simp add: t)
    then have "(Suc (0 + length p), m @ ?A, [''prefix'' \<mapsto> p])
            \<in> set (rmatch (Seq (Group ''prefix'' (Plus_class prefix_char)) (Lit CHR ''.''))
                      (0, sig_text po m ao, Map.empty))"
      by (rule rmatch_SeqI) (rule rmatch_LitI)
    then show ?thesis by (intro that rmatch_AltI1)
  qed
  from assms have m: "m \<noteq> []" "list_all member_char m" by (simp_all add: sig_wf_def)
  have "(k + length m, ?A, g1) \<in> set (rmatch (Plus_class member_char) (k, m @ ?A, g1))"
    using m by (rule rmatch_PlusI)
  then have 2: "(k + length m, ?A, g1(''member'' \<mapsto> m))
                  \<in> set (rmatch (Group ''member'' (Plus_class member_char)) (k, m @ ?A, g1))"
    by (rule rmatch_GroupI) simp
  obtain j g3 where 3:
    "(j, [], g3) \<in> set (rmatch (Alt (Seq (Lit CHR ''('')
              (Seq (Group ''arguments'' (Plus_class not_rparen)) (Lit CHR '')''))) Eps)
                  (k + length m, ?A, g1(''member'' \<mapsto> m)))"
  proof (cases ao)
    case None
    then have "(k + length m, [], g1(''member'' \<mapsto> m)) \<in> set (rmatch (Alt (Seq (Lit CHR ''('')
              (Seq (Group ''arguments'' (Plus_class not_rparen)) (Lit CHR '')''))) Eps)
                  (k + length m, ?A, g1(''member'' \<mapsto> m)))"
      by (simp add: args_text_def)
    then show ?thesis by (rule that)
  next
    case (Some a)
    with assms have a: "a \<noteq> []" "list_all not_rparen a" by (simp_all add: sig_wf_def)
    have t: "?A = CHR ''('' # a @ '')''" using Some by (simp add: args_text_def)
    let ?g = "g1(''member'' \<mapsto> m)"
    have "(Suc (k + length m) + length a, '')'', ?g)
             \<in> set (rmatch (Plus_class not_rparen) (Suc (k + length m), a @ '')'', ?g))"
      using a by (rule rmatch_PlusI)
    then have "(Suc (k + length m) + length a, '')'', ?g(''arguments'' \<mapsto> a))
             \<in> set (rmatch (Group ''arguments'' (Plus_class not_rparen))
                       (Suc (k + length m), a @ '')'', ?g))"
      by (rule rmatch_GroupI) simp
    then have "(Suc (Suc (k + length m) + length a), [], ?g(''arguments'' \<mapsto> a))
             \<in> set (rmatch (Seq (Group ''arguments'' (Plus_class not_rparen)) (Lit CHR '')''))
                       (Suc (k + length m), a @ '')'', ?g))"
      by (rule rmatch_SeqI) (rule rmatch_LitI)
    with rmatch_LitI have "(Suc (Suc (k + length m) + length a), [], ?g(''arguments'' \<mapsto> a))
             \<in> set (rmatch (Seq (Lit CHR ''('')
                         (Seq (Group ''arguments'' (Plus_class not_rparen)) (Lit CHR '')'')))
                       (k + length m, CHR ''('' # a @ '')'', ?g))"
      by (rule rmatch_SeqI)
    then have "(Suc (Suc (k + length m) + length a), [], ?g(''arguments'' \<mapsto> a))
             \<in> set (rmatch (Seq (Lit CHR ''('')
                         (Seq (Group ''arguments'' (Plus_class not_rparen)) (Lit CHR '')'')))
                       (k + length m, ?A, ?g))"
      by (simp only: t)
    then show ?thesis by (intro that rmatch_AltI1)
  qed
  have 4: "(j, [], g3) \<in> set (rmatch Eol (j, [], g3))" by simp
  have "(j, [], g3) \<in> set (rmatch re_signature (0, sig_text po m ao, Map.empty))"
    unfolding re_signature_def
    by (rule rmatch_SeqI [of "(0, sig_text po m ao, Map.empty)"], simp)
       (intro rmatch_SeqI [OF 1] rmatch_SeqI [OF 2] rmatch_SeqI [OF 3] 4)
  then show ?thesis by auto
qed

lemma sig_text_split: "sig_text po m ao = head_text po m @ args_text ao"
  by (simp add: sig_text_def head_text_def args_text_def)

lemma member_char_prefix_char: "member_char c \<Longrightarrow> prefix_char c"
  by (auto simp: member_char_def prefix_char_def)

lemma member_char_not_dot: "member_char c \<Longrightarrow> c \<noteq> CHR ''.''"
  by (auto simp: member_char_def is_word_def)

lemma head_text_prefix_chars:
  "sig_wf po m ao \<Longrightarrow> list_all prefix_char (head_text po m)"
  by (auto simp: sig_wf_def head_text_def list_all_iff prefix_char_def member_char_def
           split: option.splits)

lemma takeWhile_stop:
  "list_all P u \<Longrightarrow> r = [] \<or> \<not> P (hd r) \<Longrightarrow> takeWhile P (u @ r) = u"
  by (cases r) (auto simp: list_all_iff)

lemma args_text_stop:
  "t = [] \<or> t = [CHR 0x0A] \<Longrightarrow> args_text ao @ t = [] \<or> \<not> prefix_char (hd (args_text ao @ t))"
  by (auto simp: args_text_def char_class_defs split: option.splits)

lemma head_text_member:
  "sig_wf po m ao \<Longrightarrow> rev (takeWhile (\<lambda>c. c \<noteq> CHR ''.'') (rev (head_text po m))) = m"
proof -
  assume wf: "sig_wf po m ao"
  then have m: "list_all (\<lambda>c. c \<noteq> CHR ''.'') (rev m)"
    by (auto simp: sig_wf_def list_all_iff dest: member_char_not_dot)
  have "rev (head_text po m) = rev m @ (case po of Some p \<Rightarrow> CHR ''.'' # rev p | None \<Rightarrow> [])"
    by (simp add: head_text_def split: option.splits)
  moreover have "takeWhile (\<lambda>c. c \<noteq> CHR ''.'')
      (rev m @ (case po of Some p \<Rightarrow> CHR ''.'' # rev p | None \<Rightarrow> [])) = rev m"
    using m by (rule takeWhile_stop) (simp split: option.splits)
  ultimately show ?thesis by simp
qed

lemma head_text_inject:
  assumes "head_text po m = head_text po' m'" "sig_wf po m ao" "sig_wf po' m' ao'"
  shows "po = po' \<and> m = m'"
proof -
  from assms have m: "m = m'"
    using head_text_member [of po m ao] head_text_member [of po' m' ao'] by simp
  with assms(1) have "(case po of Some p \<Rightarrow> p @ ''.'' | None \<Rightarrow> [])
      = (case po' of Some p \<Rightarrow> p @ ''.'' | None \<Rightarrow> [])"
    by (simp add: head_text_def)
  then have "po = po'" by (auto split: option.splits)
  with m show ?thesis by simp
qed

lemma args_text_inject:
  assumes "args_text ao = args_text ao' @ t" "sig_wf po m ao" "sig_wf po' m' ao'"
    "t = [] \<or> t = [CHR 0x0A]"
  shows "ao = ao'"
proof (cases ao)
  case None
  with assms(1) show ?thesis by (cases ao') (simp_all add: args_text_def)
next
  case (Some a)
  show ?thesis
  proof (cases ao')
    case None
    with Some assms(1,4) show ?thesis by (auto simp: args_text_def)
  next
    case (Some a')
    from \<open>ao = Some a\<close> assms(2) have a: "list_all not_rparen a" by (simp add: sig_wf_def)
    from Some assms(3) have a': "list_all not_rparen a'" by (simp add: sig_wf_def)
    from \<open>ao = Some a\<close> Some assms(1) have eq: "a @ '')'' = a' @ ('')'' @ t)"
      by (simp add: args_text_def)
    have "takeWhile not_rparen (a @ '')'') = a"
      using a by (rule takeWhile_stop) (simp add: not_rparen_def)
    moreover have "takeWhile not_rparen (a' @ ('')'' @ t)) = a'"
      using a' by (rule takeWhile_stop) (simp add: not_rparen_def)
    ultimately have "a = a'" using eq by simp
    with \<open>ao = Some a\<close> Some show ?thesis by simp
  qed
qed

lemma sig_text_unique:
  assumes eq: "sig_text po m ao = sig_text po' m' ao' @ t"
    and wf: "sig_wf po m ao" and wf': "sig_wf po' m' ao'"
    and t: "t = [] \<or> t = [CHR 0x0A]"
  shows "po = po' \<and> m = m' \<and> ao = ao'"
proof -
  have "takeWhile prefix_char (head_text po m @ (args_text ao @ [])) = head_text po m"
    by (rule takeWhile_stop [OF head_text_prefix_chars [OF wf] args_text_stop]) simp
  moreover have "takeWhile prefix_char (head_text po' m' @ (args_text ao' @ t)) = head_text po' m'"
    by (rule takeWhile_stop [OF head_text_prefix_chars [OF wf'] args_text_stop [OF t]])
  ultimately have h: "head_text po m = head_text po' m'"
    using eq by (simp add: sig_text_split)
  with eq have "args_text ao = args_text ao' @ t" by (simp add: sig_text_split)
  from head_text_inject [OF h wf wf'] args_text_inject [OF this wf wf' t]
  show ?thesis by simp
qed

lemma re_match_sig_text:
  assumes wf: "sig_wf po m ao"
  shows "\<exists>g. re_match re_signature (sig_text po m ao) = Some g \<and>
             g ''prefix'' = po \<and> g ''member'' = Some m \<and> g ''arguments'' = ao"
proof -
  obtain j t g rest where hd: "rmatch re_signature (0, sig_text po m ao, Map.empty) = (j, t, g) # rest"
    using sig_complete [OF wf] by (cases "rmatch re_signature (0, sig_text po m ao, Map.empty)") auto
  then have "(j, t, g) \<in> set (rmatch re_signature (0, sig_text po m ao, Map.empty))" by simp
  from sig_sound [OF this] obtain po' m' ao' where
    *: "sig_text po m ao = sig_text po' m' ao' @ t" "sig_wf po' m' ao'" "t = [] \<or> t = [CHR 0x0A]"
       "g ''prefix'' = po'" "g ''member'' = Some m'" "g ''arguments'' = ao'"
    by blast
  from sig_text_unique [OF *(1) wf *(2,3)] * hd show ?thesis
    by (simp add: re_match_def)
qed

lemma from_string_sig_text:
  assumes wf: "sig_wf po m ao"
  shows "from_string (sig_text po m ao) =
           Inr \<lparr>prefix = po, member = m,
                arguments = map_option (re_split re_comma_spaces) ao\<rparr>"
proof -
  from re_match_sig_text [OF wf] obtain g where
    "re_match re_signature (sig_text po m ao) = Some g"
    "g ''prefix'' = po" "g ''member'' = Some m" "g ''arguments'' = ao"
    by blast
  moreover from wf have "ao \<noteq> Some []" by (auto simp: sig_wf_def)
  ultimately show ?thesis
    by (cases ao) (simp_all add: from_string_def)
qed

lemma from_string_member_nonempty:
  assumes "from_string s = Inr sig"
  shows "member sig \<noteq> []"
proof -
  from assms obtain g where g: "re_match re_signature s = Some g" "g ''member'' = Some (member sig)"
    by (auto simp: from_string_def split: option.splits)
  then obtain j t rest where "rmatch re_signature (0, s, Map.empty) = (j, t, g) # rest"
    by (auto simp: re_match_def split: list.splits)
  then have "(j, t, g) \<in> set (rmatch re_signature (0, s, Map.empty))" by simp
  from sig_sound [OF this] g(2) show ?thesis by (auto simp: sig_wf_def)
qed

subsection \<open>What the split finds\<close>

lemma re_split_from_nonempty: "re_split_from r i piece s \<noteq> []"
  by (induction r i piece s rule: re_split_from.induct)
     (subst re_split_from.simps, auto split: list.splits option.splits prod.splits if_splits)

lemma greedy_plus_empty: "greedy_plus P i s g = [] \<longleftrightarrow> s = [] \<or> \<not> P (hd s)"
  by (cases s) auto

lemma greedy_plus_hd:
  "s \<noteq> [] \<Longrightarrow> P (hd s) \<Longrightarrow>
     hd (greedy_plus P i s g) = (i + length (takeWhile P s), dropWhile P s, g)"
proof (induction s arbitrary: i)
  case Nil
  then show ?case by simp
next
  case (Cons x s)
  show ?case
  proof (cases "s = [] \<or> \<not> P (hd s)")
    case True
    then have "greedy_plus P (Suc i) s g = []" by (simp add: greedy_plus_empty)
    moreover from True have "takeWhile P s = []" "dropWhile P s = s" by (cases s; auto)+
    ultimately show ?thesis using Cons.prems by simp
  next
    case False
    then have "greedy_plus P (Suc i) s g \<noteq> []" by (simp add: greedy_plus_empty)
    moreover from False have "hd (greedy_plus P (Suc i) s g)
        = (Suc i + length (takeWhile P s), dropWhile P s, g)"
      by (intro Cons.IH) simp_all
    ultimately show ?thesis using Cons.prems by simp
  qed
qed

lemma rmatch_comma_spaces:
  "rmatch re_comma_spaces (i, s, g) =
     (case s of [] \<Rightarrow> [] | c # rest \<Rightarrow>
        if c = CHR '','' then greedy_plus is_space (Suc i) rest g else [])"
  by (simp add: re_comma_spaces_def split: list.splits)

lemma re_split_from_no_delim:
  "\<not> has_delim s \<Longrightarrow> re_split_from re_comma_spaces i piece s = [piece @ s]"
proof (induction s arbitrary: i piece)
  case Nil
  then show ?case by (subst re_split_from.simps) (simp add: rmatch_comma_spaces)
next
  case (Cons c s)
  then have "rmatch re_comma_spaces (i, c # s, Map.empty) = []"
    by (cases s) (auto simp: rmatch_comma_spaces greedy_plus_empty)
  moreover from Cons.prems have "\<not> has_delim s" by (cases s) auto
  ultimately show ?case
    by (subst re_split_from.simps) (simp add: Cons.IH)
qed

lemma re_split_from_delim:
  assumes "\<not> has_delim f" and "is_space w"
  shows "\<exists>j. re_split_from re_comma_spaces i piece (f @ CHR '','' # w # rest)
           = (piece @ f) # re_split_from re_comma_spaces j [] (dropWhile is_space rest)"
  using assms(1)
proof (induction f arbitrary: i piece)
  case Nil
  let ?s = "CHR '','' # w # rest"
  have ne: "greedy_plus is_space (Suc i) (w # rest) Map.empty \<noteq> []"
    using assms(2) by (simp add: greedy_plus_empty)
  have hd: "hd (greedy_plus is_space (Suc i) (w # rest) Map.empty)
       = (Suc i + length (takeWhile is_space (w # rest)), dropWhile is_space (w # rest), Map.empty)"
    using assms(2) by (intro greedy_plus_hd) simp_all
  obtain tl where "rmatch re_comma_spaces (i, ?s, Map.empty)
       = (Suc i + length (takeWhile is_space (w # rest)), dropWhile is_space rest, Map.empty) # tl"
    using ne hd assms(2)
    by (cases "greedy_plus is_space (Suc i) (w # rest) Map.empty")
       (auto simp: rmatch_comma_spaces)
  moreover have "length (dropWhile is_space rest) < length ?s"
    using length_dropWhile_le [of is_space rest] by simp
  ultimately show ?case
    by (subst re_split_from.simps) auto
next
  case (Cons c f)
  then have "rmatch re_comma_spaces (i, (c # f) @ CHR '','' # w # rest, Map.empty) = []"
    by (cases f) (auto simp: rmatch_comma_spaces greedy_plus_empty is_space_def)
  moreover from Cons.prems have "\<not> has_delim f" by (cases f) auto
  from Cons.IH [OF this, of "Suc i" "piece @ [c]"] obtain j where
    "re_split_from re_comma_spaces (Suc i) (piece @ [c]) (f @ CHR '','' # w # rest)
       = ((piece @ [c]) @ f) # re_split_from re_comma_spaces j [] (dropWhile is_space rest)"
    by blast
  ultimately show ?case
    by (subst re_split_from.simps) auto
qed

lemma dropWhile_join_wf:
  "list_all wf_argument (y # ys) \<Longrightarrow> dropWhile is_space (join '', '' (y # ys)) = join '', '' (y # ys)"
  by (cases y; cases ys) (auto simp: wf_argument_def)

lemma re_split_from_join:
  "args \<noteq> [] \<Longrightarrow> list_all wf_argument args \<Longrightarrow>
     re_split_from re_comma_spaces i [] (join '', '' args) = args"
proof (induction "'', ''" args arbitrary: i rule: join.induct)
  case 1
  then show ?case by simp
next
  case (2 x)
  then show ?case by (simp add: re_split_from_no_delim wf_argument_def)
next
  case (3 x y ys)
  from "3.prems" have x: "\<not> has_delim x" by (simp add: wf_argument_def)
  have sp: "is_space CHR '' ''" by (simp add: is_space_def)
  from re_split_from_delim [OF x sp, of i "[]" "join '', '' (y # ys)"] obtain j where
    "re_split_from re_comma_spaces i [] (x @ CHR '','' # CHR '' '' # join '', '' (y # ys))
       = x # re_split_from re_comma_spaces j [] (dropWhile is_space (join '', '' (y # ys)))"
    by auto
  moreover from "3.prems" have "list_all wf_argument (y # ys)" by simp
  ultimately show ?case
    using "3.hyps" [of j] by (simp add: dropWhile_join_wf del: join.simps(3))
         (simp)
qed

lemma prefix_char_not_space: "prefix_char c \<Longrightarrow> \<not> is_strip_space c"
  by (auto simp: char_class_defs)

lemma space_not_rparen: "is_space c \<Longrightarrow> not_rparen c"
  by (auto simp: char_class_defs)

lemma spaces_no_delim: "list_all is_space ws \<Longrightarrow> \<not> has_delim ws"
  by (induction ws rule: has_delim.induct) (auto simp: is_space_def)

lemma strip_ident:
  "s \<noteq> [] \<Longrightarrow> \<not> is_strip_space (hd s) \<Longrightarrow> \<not> is_strip_space (last s) \<Longrightarrow>
     strip s = s"
proof -
  assume s: "s \<noteq> []" "\<not> is_strip_space (hd s)" "\<not> is_strip_space (last s)"
  then have "dropWhile is_strip_space s = s" by (cases s) auto
  moreover from s have "dropWhile is_strip_space (rev s) = rev s"
    by (cases "rev s") (auto simp: last_rev [symmetric] hd_rev)
  ultimately show ?thesis by (simp add: strip_def)
qed

lemma join_args_not_rparen:
  "list_all wf_argument args \<Longrightarrow> list_all not_rparen (join '', '' args)"
  by (induction "'', ''" args rule: join.induct) (auto simp: wf_argument_def not_rparen_def)

lemma join_args_nonempty:
  "args \<noteq> [] \<Longrightarrow> list_all wf_argument args \<Longrightarrow> join '', '' args \<noteq> []"
  by (induction "'', ''" args rule: join.induct) (auto simp: wf_argument_def)

subsection \<open>Signatures the grammar does not match\<close>

text \<open>
  C5. The claim: for a signature that the grammar does not match, \<open>from_string\<close>
  returns, without raising, a signature whose prefix and member are absent, and the
  handler renders what there is. The source evaluates \<^verbatim>\<open>cls()\<close> there, and \<^verbatim>\<open>__init__\<close>
  requires \<^verbatim>\<open>prefix\<close>, \<^verbatim>\<open>member\<close> and \<^verbatim>\<open>arguments\<close>: every signature without a match
  raises TypeError, in \<open>from_string\<close> and so in \<open>handle_signature\<close>, and no
  signature that \<open>from_string\<close> returns has an empty member.
\<close>

theorem from_string_no_match_raises:
  "(re_match re_signature s = None \<longrightarrow> from_string s = Inl TypeError)
   \<and> (re_match re_signature (strip s) = None \<longrightarrow>
        handle_signature k current_prefix s node = Inl TypeError)
   \<and> (from_string s = Inr sig \<longrightarrow> member sig \<noteq> [])"
  by (simp add: from_string_member_nonempty) (simp add: from_string_def handle_signature_def)

theorem from_string_no_match_raises_witness:
  "re_match re_signature ''foo bar'' = None \<and> from_string ''foo bar'' = Inl TypeError
   \<and> handle_signature DotNetMethod None '' foo bar '' new_signode = Inl TypeError
   \<and> from_string ''Method'' = Inr \<lparr>prefix = None, member = ''Method'', arguments = None\<rparr>"
proof -
  have h: "re_match re_signature ''foo bar'' = None"
    by (simp add: re_match_def re_signature_def char_class_defs)
  have s: "strip '' foo bar '' = ''foo bar''"
    by (simp add: strip_def is_strip_space_def is_space_def)
  have m: "from_string ''Method'' = Inr \<lparr>prefix = None, member = ''Method'', arguments = None\<rparr>"
    by (simp add: parse_defs char_class_defs)
  from from_string_no_match_raises [of "''foo bar''" DotNetMethod None new_signode]
    from_string_no_match_raises [of "'' foo bar ''" DotNetMethod None new_signode]
    h s m
  show ?thesis by simp
qed

subsection \<open>The name returned for a redundantly qualified signature\<close>

text \<open>
  C3. The claim: a signature whose prefix equals the context prefix is rendered
  without the prefix, and the full name returned is still prefix, dot, member. The
  node is rendered as claimed, but the source clears \<^verbatim>\<open>sig.prefix\<close> before it calls
  \<^verbatim>\<open>full_name()\<close>: for every well-formed prefix and member the name it returns, and
  stores as \<^verbatim>\<open>signode['fullname']\<close>, is the bare member.
\<close>

theorem handle_signature_redundant_prefix:
  assumes "p \<noteq> []" and "list_all prefix_char p"
    and "m \<noteq> []" and "list_all member_char m"
  shows "handle_signature k (Some p) (p @ ''.'' @ m) node =
     Inr (node\<lparr>sn_object := Some m, sn_package := None, sn_fullname := Some m,
               sn_children := sn_children node
                 @ (case display_prefix k of Some d \<Rightarrow> [desc_annotation d] | None \<Rightarrow> [])
                 @ [desc_name m]
                 @ (if has_arguments k then [desc_parameterlist] else [])\<rparr>,
          (m, None))"
proof -
  have "hd (p @ ''.'' @ m) = hd p" "last (p @ ''.'' @ m) = last m"
    using assms by simp_all
  moreover have "prefix_char (hd p)" "member_char (last m)"
    using assms by (simp_all add: list_all_iff)
  ultimately have "strip (p @ ''.'' @ m) = p @ ''.'' @ m"
    by (intro strip_ident) (auto dest: prefix_char_not_space member_char_prefix_char)
  moreover have "sig_wf (Some p) m None" using assms by (simp add: sig_wf_def)
  from from_string_sig_text [OF this]
  have "from_string (p @ ''.'' @ m) = Inr \<lparr>prefix = Some p, member = m, arguments = None\<rparr>"
    by (simp add: sig_text_def)
  ultimately show ?thesis
    using assms(1)
    by (cases k) (simp_all add: handle_signature_def truthy_def full_name_def)
qed

theorem handle_signature_redundant_prefix_witness:
  "handle_signature DotNetMethod (Some ''NS.Cls'') ''NS.Cls.Method'' new_signode =
     Inr (new_signode\<lparr>sn_object := Some ''Method'', sn_package := None,
                       sn_fullname := Some ''Method'',
                       sn_children := [desc_name ''Method'', desc_parameterlist]\<rparr>,
          (''Method'', None))"
proof -
  have 1: "''NS.Cls'' \<noteq> []" "''Method'' \<noteq> []" by simp_all
  have 2: "list_all prefix_char ''NS.Cls''" by (simp add: char_class_defs)
  have 3: "list_all member_char ''Method''" by (simp add: char_class_defs)
  from handle_signature_redundant_prefix [OF 1(1) 2 1(2) 3, of DotNetMethod new_signode]
  show ?thesis by (simp add: new_signode_def)
qed

subsection \<open>Index text\<close>

text \<open>
  C8. The claim: \<open>get_index_text\<close> gives a method, a namespace and a property the
  index strings of the table. The source compares \<^verbatim>\<open>self.objtype\<close> with \<^verbatim>\<open>function\<close>,
  \<^verbatim>\<open>package\<close>, \<^verbatim>\<open>data\<close> and \<^verbatim>\<open>attribute\<close>, and none of the eight directives is
  registered under one of these names: for every kind the index text is empty,
  whatever the name and the enclosing object.
\<close>

theorem get_index_text_kinds_empty:
  "get_index_text (long_name k) objectname name_obj = []"
  by (cases k) (simp_all add: get_index_text_def Let_def)

theorem get_index_text_kinds_empty_witness:
  "get_index_text (long_name DotNetMethod) None (''Foo'', Some ''Cls'') = []
   \<and> directives ''method'' = Some DotNetMethod"
  using get_index_text_kinds_empty [of DotNetMethod None "(''Foo'', Some ''Cls'')"]
  by (simp add: directives_def)

subsection \<open>A reference whose target is empty\<close>

text \<open>
  C10. The claim: when the target is empty after the suffix \<^verbatim>\<open>()\<close> is removed,
  \<open>resolve_xref\<close> produces no link and raises nothing. \<open>find_obj\<close> returns the
  empty list there, and \<open>resolve_xref\<close> unpacks its result into two names: it
  raises ValueError.
\<close>

theorem resolve_xref_empty_target_raises:
  "skip_parens target = [] \<Longrightarrow>
     resolve_xref objs fromdocname obj_type target node = Inl ValueError"
  by (simp add: resolve_xref_def find_obj_def)

theorem resolve_xref_empty_target_raises_witness:
  "skip_parens ''()'' = [] \<and>
   resolve_xref Map.empty ''index'' ''meth'' ''()''
     \<lparr>rn_object = None, rn_namespace = None, refspecific = False\<rparr> = Inl ValueError"
proof -
  have h: "skip_parens ''()'' = []" by (simp add: skip_parens_def)
  show ?thesis using h resolve_xref_empty_target_raises [OF h] by simp
qed

subsection \<open>Registering a name twice\<close>

text \<open>
  C1, as amended. The claim: a second registration of a full name leaves the
  registry entry of the first one in place. The source warns and then assigns
  \<^verbatim>\<open>objects[fullname]\<close> in every case. What holds, for a full name that the registry
  already holds: when the full name is not among the ids of the current document,
  one warning is added that names the full name and the path of the document of the
  earlier entry, nothing is raised, the entry is replaced by the current document
  and object type (the last registration wins), and no key is added; when the full
  name is already an id of the current document, nothing is registered and no
  warning is added.
\<close>

theorem add_target_and_index_duplicate:
  assumes "objects b fullname = Some (other_doc, other_type)"
    and "b' = snd (add_target_and_index doc2path objtype names opt_object dn_object
                     (fullname, p) node b)"
  shows "(fullname \<notin> document_ids b \<longrightarrow>
            warnings b' = warnings b @ [duplicate_warning doc2path fullname other_doc]
          \<and> objects b' = (objects b)(fullname \<mapsto> (docname b, objtype))
          \<and> dom (objects b') = dom (objects b))
       \<and> (fullname \<in> document_ids b \<longrightarrow>
            warnings b' = warnings b \<and> objects b' = objects b)"
  using assms
  by (auto simp: add_target_and_index_def Let_def split: prod.splits)

theorem add_target_and_index_duplicate_witness:
  "warnings (snd (add_target_and_index ((@) ''docs/'') ''class'' [(''NS.Foo'', Some ''NS'')]
       None None (''NS.Foo'', Some ''NS'') new_signode
       \<lparr>docname = ''b'', objects = [''NS.Foo'' \<mapsto> (''a'', ''class'')], document_ids = {},
        warnings = [], index_entries = []\<rparr>))
     = [''duplicate object description of NS.Foo, other instance in docs/a'']
   \<and> objects (snd (add_target_and_index ((@) ''docs/'') ''class'' [(''NS.Foo'', Some ''NS'')]
       None None (''NS.Foo'', Some ''NS'') new_signode
       \<lparr>docname = ''b'', objects = [''NS.Foo'' \<mapsto> (''a'', ''class'')], document_ids = {},
        warnings = [], index_entries = []\<rparr>)) ''NS.Foo'' = Some (''b'', ''class'')
   \<and> warnings (snd (add_target_and_index ((@) ''docs/'') ''method'' [(''NS.Foo'', Some ''NS'')]
       None None (''NS.Foo'', Some ''NS'') new_signode
       \<lparr>docname = ''a'', objects = [''NS.Foo'' \<mapsto> (''a'', ''class'')],
        document_ids = {''NS.Foo''}, warnings = [], index_entries = []\<rparr>)) = []
   \<and> objects (snd (add_target_and_index ((@) ''docs/'') ''method'' [(''NS.Foo'', Some ''NS'')]
       None None (''NS.Foo'', Some ''NS'') new_signode
       \<lparr>docname = ''a'', objects = [''NS.Foo'' \<mapsto> (''a'', ''class'')],
        document_ids = {''NS.Foo''}, warnings = [], index_entries = []\<rparr>)) ''NS.Foo''
     = Some (''a'', ''class'')"
proof -
  have 1: "objects \<lparr>docname = ''b'', objects = [''NS.Foo'' \<mapsto> (''a'', ''class'')],
             document_ids = {}, warnings = [], index_entries = []\<rparr> ''NS.Foo''
           = Some (''a'', ''class'')"
    by simp
  have 2: "objects \<lparr>docname = ''a'', objects = [''NS.Foo'' \<mapsto> (''a'', ''class'')],
             document_ids = {''NS.Foo''}, warnings = [], index_entries = []\<rparr> ''NS.Foo''
           = Some (''a'', ''class'')"
    by simp
  from add_target_and_index_duplicate [OF 1 refl, of "(@) ''docs/''" "''class''"
         "[(''NS.Foo'', Some ''NS'')]" None None "Some ''NS''" new_signode]
  have a: "warnings (snd (add_target_and_index ((@) ''docs/'') ''class''
       [(''NS.Foo'', Some ''NS'')] None None (''NS.Foo'', Some ''NS'') new_signode
       \<lparr>docname = ''b'', objects = [''NS.Foo'' \<mapsto> (''a'', ''class'')], document_ids = {},
        warnings = [], index_entries = []\<rparr>))
     = [''duplicate object description of NS.Foo, other instance in docs/a'']
   \<and> objects (snd (add_target_and_index ((@) ''docs/'') ''class'' [(''NS.Foo'', Some ''NS'')]
       None None (''NS.Foo'', Some ''NS'') new_signode
       \<lparr>docname = ''b'', objects = [''NS.Foo'' \<mapsto> (''a'', ''class'')], document_ids = {},
        warnings = [], index_entries = []\<rparr>)) ''NS.Foo'' = Some (''b'', ''class'')"
    by (simp add: duplicate_warning_def)
  from add_target_and_index_duplicate [OF 2 refl, of "(@) ''docs/''" "''method''"
         "[(''NS.Foo'', Some ''NS'')]" None None "Some ''NS''" new_signode]
  have b: "warnings (snd (add_target_and_index ((@) ''docs/'') ''method''
       [(''NS.Foo'', Some ''NS'')] None None (''NS.Foo'', Some ''NS'') new_signode
       \<lparr>docname = ''a'', objects = [''NS.Foo'' \<mapsto> (''a'', ''class'')],
        document_ids = {''NS.Foo''}, warnings = [], index_entries = []\<rparr>)) = []
   \<and> objects (snd (add_target_and_index ((@) ''docs/'') ''method'' [(''NS.Foo'', Some ''NS'')]
       None None (''NS.Foo'', Some ''NS'') new_signode
       \<lparr>docname = ''a'', objects = [''NS.Foo'' \<mapsto> (''a'', ''class'')],
        document_ids = {''NS.Foo''}, warnings = [], index_entries = []\<rparr>)) ''NS.Foo''
     = Some (''a'', ''class'')"
    by simp
  from a b show ?thesis by simp
qed

text \<open>
  The claim of C1 as stated fails: the entry made for document \<^verbatim>\<open>a\<close> points at
  document \<^verbatim>\<open>b\<close> after the second registration; and when the full name is
  already an id of the current document there is no warning at all.
\<close>

theorem add_target_and_index_first_wins_counterexample:
  "objects (snd (add_target_and_index ((@) ''docs/'') ''class'' [(''NS.Foo'', Some ''NS'')]
       None None (''NS.Foo'', Some ''NS'') new_signode
       \<lparr>docname = ''b'', objects = [''NS.Foo'' \<mapsto> (''a'', ''class'')], document_ids = {},
        warnings = [], index_entries = []\<rparr>)) ''NS.Foo'' = Some (''b'', ''class'')
   \<and> warnings (snd (add_target_and_index ((@) ''docs/'') ''class'' [(''NS.Foo'', Some ''NS'')]
       None None (''NS.Foo'', Some ''NS'') new_signode
       \<lparr>docname = ''a'', objects = [''NS.Foo'' \<mapsto> (''a'', ''class'')],
        document_ids = {''NS.Foo''}, warnings = [], index_entries = []\<rparr>)) = []"
  by (simp add: add_target_and_index_def get_index_text_def Let_def)

subsection \<open>The prefix while a nesting construct's body is processed\<close>

text \<open>
  C2. The claim: on entering the body of a nesting construct the current prefix
  becomes the construct's full name, and on leaving it the prior prefix is restored.
  \<open>before_content\<close> is documented to build up the prefix with nested elements and
  reads the existing prefix, but only prints it: it takes the last pair
  \<^verbatim>\<open>(parent, prefix)\<close> off \<^verbatim>\<open>self.names\<close> and makes its second component, the prefix that
  \<open>handle_signature\<close> returned, the current prefix; \<open>after_content\<close> then sets the
  current prefix to None. So the prefix in the body is not the construct's full
  name, and the prefix after the body is not the one before it.
\<close>

theorem nesting_enter_leave:
  assumes "self_names st = names @ [(parent, p)]"
  shows "before_content st = st\<lparr>self_names := names, dn_prefix := p, clsname_set := Some True\<rparr>
       \<and> after_content (before_content st)
           = Inr (st\<lparr>self_names := names, dn_prefix := None, clsname_set := Some True\<rparr>)"
  using assms by (simp add: before_content_def after_content_def)

text \<open>
  For the top-level namespace \<^verbatim>\<open>NS\<close>, \<open>handle_signature\<close> returns the pair of \<^verbatim>\<open>NS\<close>
  and None, and the prefix inside the body is None and not \<^verbatim>\<open>NS\<close>; a body entered
  under the prefix \<^verbatim>\<open>NS\<close> leaves None behind.
\<close>

theorem nesting_enter_leave_witness:
  "map_sum id snd (handle_signature DotNetNamespace None ''NS'' new_signode) = Inr (''NS'', None)
   \<and> before_content \<lparr>dn_prefix = None, self_names = [(''NS'', None)], clsname_set = None\<rparr>
       = \<lparr>dn_prefix = None, self_names = [], clsname_set = Some True\<rparr>
   \<and> before_content \<lparr>dn_prefix = Some ''NS'', self_names = [(''X.Cls'', Some ''X'')],
                     clsname_set = None\<rparr>
       = \<lparr>dn_prefix = Some ''X'', self_names = [], clsname_set = Some True\<rparr>
   \<and> after_content (before_content \<lparr>dn_prefix = Some ''NS'',
         self_names = [(''X.Cls'', Some ''X'')], clsname_set = None\<rparr>)
       = Inr \<lparr>dn_prefix = None, self_names = [], clsname_set = Some True\<rparr>"
proof -
  have h: "map_sum id snd (handle_signature DotNetNamespace None ''NS'' new_signode)
             = Inr (''NS'', None)"
    by (simp add: handle_signature_def parse_defs char_class_defs truthy_def new_signode_def)
  have n1: "self_names \<lparr>dn_prefix = None, self_names = [(''NS'', None)], clsname_set = None\<rparr>
              = [] @ [(''NS'', None)]"
    by simp
  have n2: "self_names \<lparr>dn_prefix = Some ''NS'', self_names = [(''X.Cls'', Some ''X'')],
                        clsname_set = None\<rparr> = [] @ [(''X.Cls'', Some ''X'')]"
    by simp
  have a: "before_content \<lparr>dn_prefix = None, self_names = [(''NS'', None)], clsname_set = None\<rparr>
       = \<lparr>dn_prefix = None, self_names = [], clsname_set = Some True\<rparr>"
    using nesting_enter_leave [OF n1, THEN conjunct1] by simp
  have b: "before_content \<lparr>dn_prefix = Some ''NS'', self_names = [(''X.Cls'', Some ''X'')],
                     clsname_set = None\<rparr>
       = \<lparr>dn_prefix = Some ''X'', self_names = [], clsname_set = Some True\<rparr>"
    using nesting_enter_leave [OF n2, THEN conjunct1] by simp
  have c: "after_content (before_content \<lparr>dn_prefix = Some ''NS'',
         self_names = [(''X.Cls'', Some ''X'')], clsname_set = None\<rparr>)
       = Inr \<lparr>dn_prefix = None, self_names = [], clsname_set = Some True\<rparr>"
    using nesting_enter_leave [OF n2, THEN conjunct2] by simp
  from h a b c show ?thesis by (intro conjI)
qed

subsection \<open>The target of a cross-reference\<close>

text \<open>
  C9, as amended. The claim: \<open>process_link\<close> strips leading tildes from the target
  whether or not the author gave an explicit title. The source does so under
  \<^verbatim>\<open>if not has_explicit_title\<close> only. What holds: without an explicit title the target
  loses its leading tildes; with an explicit title it keeps them; in both cases one
  leading dot is then removed, and the reference is marked specific exactly when
  it was so before or such a dot was there.
\<close>

theorem process_link_target:
  "snd (snd (process_link dn_object dn_namespace node has_explicit_title title target))
     = strip_one_dot (if has_explicit_title then target else lstrip CHR ''~'' target)
   \<and> fst (process_link dn_object dn_namespace node has_explicit_title title target)
     = node\<lparr>rn_object := dn_object, rn_namespace := dn_namespace,
            refspecific := refspecific node \<or>
              take 1 (if has_explicit_title then target else lstrip CHR ''~'' target) = ''.''\<rparr>"
  by (auto simp: process_link_def strip_one_dot_def Let_def split: list.splits prod.splits)

theorem process_link_target_witness:
  "snd (snd (process_link None None \<lparr>rn_object = None, rn_namespace = None, refspecific = False\<rparr>
               False ''~NS.Foo'' ''~NS.Foo'')) = ''NS.Foo''
   \<and> snd (snd (process_link None None \<lparr>rn_object = None, rn_namespace = None, refspecific = False\<rparr>
               True ''Foo'' ''~.Foo'')) = ''~.Foo''
   \<and> fst (process_link None None \<lparr>rn_object = None, rn_namespace = None, refspecific = False\<rparr>
               True ''Foo'' ''~.Foo'')
       = \<lparr>rn_object = None, rn_namespace = None, refspecific = False\<rparr>
   \<and> process_link None None \<lparr>rn_object = None, rn_namespace = None, refspecific = False\<rparr>
               False ''~.Foo'' ''~.Foo''
       = (\<lparr>rn_object = None, rn_namespace = None, refspecific = True\<rparr>, ''Foo'', ''Foo'')"
proof -
  note a = process_link_target [of None None
      "\<lparr>rn_object = None, rn_namespace = None, refspecific = False\<rparr>" False "''~NS.Foo''" "''~NS.Foo''"]
  note b = process_link_target [of None None
      "\<lparr>rn_object = None, rn_namespace = None, refspecific = False\<rparr>" True "''Foo''" "''~.Foo''"]
  note c = process_link_target [of None None
      "\<lparr>rn_object = None, rn_namespace = None, refspecific = False\<rparr>" False "''~.Foo''" "''~.Foo''"]
  have t: "fst (snd (process_link None None
              \<lparr>rn_object = None, rn_namespace = None, refspecific = False\<rparr>
              False ''~.Foo'' ''~.Foo'')) = ''Foo''"
    by (simp add: process_link_def lstrip_def after_last_dot_def)
  have 1: "snd (snd (process_link None None
              \<lparr>rn_object = None, rn_namespace = None, refspecific = False\<rparr>
              False ''~NS.Foo'' ''~NS.Foo'')) = ''NS.Foo''"
    using a [THEN conjunct1] by (simp add: strip_one_dot_def lstrip_def)
  have 2: "snd (snd (process_link None None
              \<lparr>rn_object = None, rn_namespace = None, refspecific = False\<rparr>
              True ''Foo'' ''~.Foo'')) = ''~.Foo''"
    using b [THEN conjunct1] by (simp add: strip_one_dot_def lstrip_def)
  have 3: "fst (process_link None None
              \<lparr>rn_object = None, rn_namespace = None, refspecific = False\<rparr>
              True ''Foo'' ''~.Foo'')
        = \<lparr>rn_object = None, rn_namespace = None, refspecific = False\<rparr>"
    using b [THEN conjunct2] by simp
  have 4: "snd (snd (process_link None None
              \<lparr>rn_object = None, rn_namespace = None, refspecific = False\<rparr>
              False ''~.Foo'' ''~.Foo'')) = ''Foo''"
    using c [THEN conjunct1] by (simp add: strip_one_dot_def lstrip_def)
  have 5: "fst (process_link None None
              \<lparr>rn_object = None, rn_namespace = None, refspecific = False\<rparr>
              False ''~.Foo'' ''~.Foo'')
        = \<lparr>rn_object = None, rn_namespace = None, refspecific = True\<rparr>"
    using c [THEN conjunct2] by (simp add: lstrip_def)
  from t 4 5 have "process_link None None
              \<lparr>rn_object = None, rn_namespace = None, refspecific = False\<rparr>
              False ''~.Foo'' ''~.Foo''
       = (\<lparr>rn_object = None, rn_namespace = None, refspecific = True\<rparr>, ''Foo'', ''Foo'')"
    by (simp add: prod_eq_iff)
  with 1 2 3 show ?thesis by (intro conjI)
qed

text \<open>
  The claim of C9 as stated fails: with an explicit title the target \<^verbatim>\<open>~NS.Foo\<close> is
  returned unchanged.
\<close>

theorem process_link_tilde_counterexample:
  "snd (snd (process_link None None \<lparr>rn_object = None, rn_namespace = None, refspecific = False\<rparr>
               True ''Foo'' ''~NS.Foo'')) = ''~NS.Foo''"
  by (simp add: process_link_def lstrip_def)

subsection \<open>Search order\<close>

text \<open>
  C4. For a target that is not empty once a suffix \<^verbatim>\<open>()\<close> is removed: with
  \<^verbatim>\<open>searchorder = 1\<close> \<open>find_obj\<close> returns the qualified name when a namespace is given
  and the qualified name is registered, and the bare target otherwise; with
  \<^verbatim>\<open>searchorder = 0\<close> it returns the bare target when that is registered, otherwise the
  qualified name when a namespace is given and the qualified name is registered,
  otherwise no name. The second component is the registry's entry for the name
  returned.
\<close>

theorem find_obj_search_order:
  assumes "skip_parens name = target" and "target \<noteq> []"
  shows "find_obj objs ns name obj_type 1 =
           (case qualified_name ns target of
              Some q \<Rightarrow> if objs q \<noteq> None then Name_obj (Some q) (objs q)
                        else Name_obj (Some target) (objs target)
            | None \<Rightarrow> Name_obj (Some target) (objs target))
       \<and> find_obj objs ns name obj_type 0 =
           (if objs target \<noteq> None then Name_obj (Some target) (objs target)
            else case qualified_name ns target of
                   Some q \<Rightarrow> if objs q \<noteq> None then Name_obj (Some q) (objs q)
                             else Name_obj None None
                 | None \<Rightarrow> Name_obj None None)"
  using assms
  by (auto simp: find_obj_def qualified_name_def truthy_def Let_def split: option.splits)

theorem find_obj_search_order_witness:
  "find_obj [''Foo'' \<mapsto> (''a'', ''class''), ''NS.Foo'' \<mapsto> (''b'', ''class'')]
            (Some ''NS'') ''Foo'' ''cls'' 1 = Name_obj (Some ''NS.Foo'') (Some (''b'', ''class''))
   \<and> find_obj [''Foo'' \<mapsto> (''a'', ''class''), ''NS.Foo'' \<mapsto> (''b'', ''class'')]
            (Some ''NS'') ''Foo'' ''cls'' 0 = Name_obj (Some ''Foo'') (Some (''a'', ''class''))"
proof -
  have h1: "skip_parens ''Foo'' = ''Foo''" by (simp add: skip_parens_def)
  have h2: "''Foo'' \<noteq> []" by simp
  show ?thesis
    using find_obj_search_order [OF h1 h2,
        of "[''Foo'' \<mapsto> (''a'', ''class''), ''NS.Foo'' \<mapsto> (''b'', ''class'')]" "Some ''NS''" "''cls''"]
    by (simp add: qualified_name_def)
qed

subsection \<open>Round trip of a well-formed signature\<close>

text \<open>
  C7. For a non-empty prefix of prefix characters, a non-empty member of member
  characters and a non-empty list of well-formed argument fragments, \<open>from_string\<close>
  of prefix, dot, member and the fragments joined by a comma and a space, in
  parentheses, yields that prefix, member and list of fragments, and \<open>full_name\<close>
  yields prefix, dot, member. The split cuts only where a comma is followed by
  whitespace: a string without such a place is one fragment.
\<close>

theorem signature_round_trip:
  assumes "p \<noteq> []" and "list_all prefix_char p"
    and "m \<noteq> []" and "list_all member_char m"
    and "args \<noteq> []" and "list_all wf_argument args"
  shows "from_string (p @ ''.'' @ m @ ''('' @ join '', '' args @ '')'')
           = Inr \<lparr>prefix = Some p, member = m, arguments = Some args\<rparr>
       \<and> full_name \<lparr>prefix = Some p, member = m, arguments = Some args\<rparr> = p @ ''.'' @ m
       \<and> (\<not> has_delim s \<longrightarrow> re_split re_comma_spaces s = [s])"
proof -
  have "sig_wf (Some p) m (Some (join '', '' args))"
    using assms by (simp add: sig_wf_def join_args_not_rparen join_args_nonempty)
  from from_string_sig_text [OF this]
  have "from_string (p @ ''.'' @ m @ ''('' @ join '', '' args @ '')'')
           = Inr \<lparr>prefix = Some p, member = m,
                  arguments = Some (re_split re_comma_spaces (join '', '' args))\<rparr>"
    by (simp add: sig_text_def)
  moreover have "re_split re_comma_spaces (join '', '' args) = args"
    using assms(5,6) by (simp add: re_split_def re_split_from_join)
  moreover have "\<not> has_delim s \<longrightarrow> re_split re_comma_spaces s = [s]"
    by (simp add: re_split_def re_split_from_no_delim)
  ultimately show ?thesis by (simp add: full_name_def)
qed

theorem signature_round_trip_witness:
  "from_string ''Prefix.Sub.Member(a, b, c)''
     = Inr \<lparr>prefix = Some ''Prefix.Sub'', member = ''Member'',
            arguments = Some [''a'', ''b'', ''c'']\<rparr>
   \<and> full_name \<lparr>prefix = Some ''Prefix.Sub'', member = ''Member'',
                 arguments = Some [''a'', ''b'', ''c'']\<rparr> = ''Prefix.Sub.Member''
   \<and> re_split re_comma_spaces ''a,b'' = [''a,b'']"
proof -
  have 1: "''Prefix.Sub'' \<noteq> []" "''Member'' \<noteq> []" "[''a'', ''b'', ''c''] \<noteq> []" by simp_all
  have 2: "list_all prefix_char ''Prefix.Sub''" by (simp add: char_class_defs)
  have 3: "list_all member_char ''Member''" by (simp add: char_class_defs)
  have 4: "list_all wf_argument [''a'', ''b'', ''c'']"
    by (simp add: wf_argument_def char_class_defs)
  have 5: "\<not> has_delim ''a,b''" by (simp add: is_space_def)
  from signature_round_trip [OF 1(1) 2 1(2) 3 1(3) 4, of "''a,b''"] 5
  show ?thesis by simp
qed

subsection \<open>Absent and empty argument lists\<close>

text \<open>
  C6, as amended. The claim: an empty or blank parenthesis pair yields the empty
  list of arguments, and no parentheses yield no arguments. What holds: a member
  without parentheses yields no arguments; a parenthesis pair that holds whitespace
  only yields the list whose one element is that whitespace; and no signature that
  \<open>from_string\<close> returns has the empty list as its arguments.
\<close>

theorem from_string_arguments:
  assumes "m \<noteq> []" and "list_all member_char m"
    and "ws \<noteq> []" and "list_all is_space ws"
  shows "from_string m = Inr \<lparr>prefix = None, member = m, arguments = None\<rparr>
       \<and> from_string (m @ ''('' @ ws @ '')'')
           = Inr \<lparr>prefix = None, member = m, arguments = Some [ws]\<rparr>
       \<and> (\<forall>s sig. from_string s = Inr sig \<longrightarrow> arguments sig \<noteq> Some [])"
proof -
  have "sig_wf None m None" using assms by (simp add: sig_wf_def)
  from from_string_sig_text [OF this]
  have a: "from_string m = Inr \<lparr>prefix = None, member = m, arguments = None\<rparr>"
    by (simp add: sig_text_def)
  have "list_all not_rparen ws"
    using assms(4) by (auto simp: list_all_iff dest: space_not_rparen)
  then have "sig_wf None m (Some ws)" using assms by (simp add: sig_wf_def)
  from from_string_sig_text [OF this]
  have b: "from_string (m @ ''('' @ ws @ '')'')
           = Inr \<lparr>prefix = None, member = m, arguments = Some [ws]\<rparr>"
    using spaces_no_delim [OF assms(4)]
    by (simp add: sig_text_def re_split_def re_split_from_no_delim)
  have c: "\<forall>s sig. from_string s = Inr sig \<longrightarrow> arguments sig \<noteq> Some []"
    by (auto simp: from_string_def re_split_def re_split_from_nonempty
             split: option.splits if_splits)
  from a b c show ?thesis by simp
qed

theorem from_string_arguments_witness:
  "from_string ''Method'' = Inr \<lparr>prefix = None, member = ''Method'', arguments = None\<rparr>
   \<and> from_string ''Method(  )''
       = Inr \<lparr>prefix = None, member = ''Method'', arguments = Some [''  '']\<rparr>"
proof -
  have 1: "''Method'' \<noteq> []" "''  '' \<noteq> []" by simp_all
  have 2: "list_all member_char ''Method''" by (simp add: char_class_defs)
  have 3: "list_all is_space ''  ''" by (simp add: char_class_defs)
  from from_string_arguments [OF 1(1) 2 1(2) 3] show ?thesis by simp
qed

text \<open>
  The claim of C6 as stated fails: a blank parenthesis pair yields one fragment,
  and the grammar does not match an empty pair, so \<^verbatim>\<open>cls()\<close> raises.
\<close>

theorem from_string_empty_arguments_counterexample:
  "from_string ''Method( )''
     = Inr \<lparr>prefix = None, member = ''Method'', arguments = Some ['' '']\<rparr>
   \<and> from_string ''Method()'' = Inl TypeError"
  by (simp add: parse_defs char_class_defs)

end
